theory Spec2Isabelle
  imports Main "HOL-Library.Sublist"
begin

section \<open>The Promise polyfill (src/polyfills/promise.js)\<close>

text \<open>
  The polyfill keeps all of its data in JavaScript objects and closures: promise objects,
  the resolve/reject closures of \<^verbatim>\<open>createResolutionFunctions\<close> with their shared
  \<^verbatim>\<open>alreadyResolved\<close> variable, the closure variables of one \<^verbatim>\<open>Promise.all\<close> call, and
  the linked list of queued jobs. The model makes that store explicit: every object lives
  in a table indexed by a natural number, and an operation takes the store and returns the
  new one.
\<close>

subsection \<open>JavaScript values\<close>

datatype val =
    VUndefined
  | VNull
  | VBool bool
  | VNum int
  | VStr string
  | VError string string  \<comment> \<open>an error object: constructor name and message\<close>
  | VArr "val list"       \<comment> \<open>an array\<close>
  | VObj val              \<comment> \<open>a plain object; the argument is what reading its \<^verbatim>\<open>then\<close> yields\<close>
  | VObjThrow val         \<comment> \<open>an object whose \<^verbatim>\<open>then\<close> getter throws the argument\<close>
  | VPromise nat          \<comment> \<open>a promise object (carries the \<^verbatim>\<open>symMarker\<close>)\<close>
  | VResolveFn nat        \<comment> \<open>\<^verbatim>\<open>resolve\<close> of the resolution pair with this number\<close>
  | VRejectFn nat         \<comment> \<open>\<^verbatim>\<open>reject\<close> of the resolution pair with this number\<close>
  | VAllElem nat          \<comment> \<open>a \<^verbatim>\<open>promiseAllElement\<close> function object\<close>
  | VThenMethod           \<comment> \<open>\<^verbatim>\<open>Promise.prototype.then\<close>\<close>
  | VCatchMethod          \<comment> \<open>\<^verbatim>\<open>Promise.prototype.catch\<close>\<close>
  | VFun nat              \<comment> \<open>a function of the client program (index into its code table)\<close>

datatype 'a outcome = Normal 'a | Thrown val

text \<open>\<^verbatim>\<open>v !== null && typeof v === 'object'\<close> and \<^verbatim>\<open>typeof v === 'function'\<close>.\<close>

fun is_object :: "val \<Rightarrow> bool" where
  "is_object (VError _ _) = True"
| "is_object (VArr _) = True"
| "is_object (VObj _) = True"
| "is_object (VObjThrow _) = True"
| "is_object (VPromise _) = True"
| "is_object _ = False"

fun is_function :: "val \<Rightarrow> bool" where
  "is_function (VResolveFn _) = True"
| "is_function (VRejectFn _) = True"
| "is_function (VAllElem _) = True"
| "is_function VThenMethod = True"
| "is_function VCatchMethod = True"
| "is_function (VFun _) = True"
| "is_function _ = False"

text \<open>Reading the property \<^verbatim>\<open>then\<close> of an object. A promise inherits it from the prototype.\<close>

fun get_then :: "val \<Rightarrow> val outcome" where
  "get_then (VPromise _) = Normal VThenMethod"
| "get_then (VObj t) = Normal t"
| "get_then (VObjThrow e) = Thrown e"
| "get_then _ = Normal VUndefined"

fun isPromise :: "val \<Rightarrow> bool" where
  "isPromise (VPromise _) = True"
| "isPromise _ = False"

subsection \<open>The store\<close>

text \<open>
  A reaction handler is a function or one of the two strings \<^verbatim>\<open>'Identity'\<close> and
  \<^verbatim>\<open>'Thrower'\<close> that \<^verbatim>\<open>then\<close> puts in place of a handler that is not callable.
\<close>

datatype handler = Identity | Thrower | Handler val

record reaction =
  handler :: handler
  resolve :: val
  reject :: val

text \<open>
  The two shapes of job object the polyfill builds: \<^verbatim>\<open>{handler, resolve, reject, value}\<close>
  and \<^verbatim>\<open>{thenable, then, resolve, reject}\<close>.
\<close>

datatype job =
    ReactionJob handler val val val
  | ThenableJob val val val val

text \<open>
  A promise object. \<^verbatim>\<open>state\<close> is \<^verbatim>\<open>undefined\<close> (pending, \<open>None\<close>), \<^verbatim>\<open>true\<close>
  (fulfilled) or \<^verbatim>\<open>false\<close> (rejected). Settling deletes both reaction lists; they are
  read only while \<^verbatim>\<open>state\<close> is \<^verbatim>\<open>undefined\<close>, and the model empties them instead.
\<close>

record promise =
  state :: "bool option"
  pvalue :: val
  fulfillReactions :: "reaction list"
  rejectReactions :: "reaction list"

text \<open>The closure of one \<^verbatim>\<open>createResolutionFunctions(p)\<close> call.\<close>

record pair =
  target :: nat
  alreadyResolved :: bool

text \<open>
  The closure variables of one \<^verbatim>\<open>Promise.all\<close> call; \<^verbatim>\<open>resolveFn\<close> and \<^verbatim>\<open>rejectFn\<close>
  are the two functions of the resolution pair \<open>capability\<close>.
\<close>

record all_closure =
  all_values :: "val list"
  all_index :: nat
  remaining :: int
  capability :: nat

text \<open>A \<^verbatim>\<open>promiseAllElement\<close> function object and the closure it belongs to.\<close>

record all_element =
  F_closure :: nat
  F_index :: nat
  F_alreadyCalled :: bool

text \<open>
  The queue is the linked list from \<^verbatim>\<open>queueHead\<close> to \<^verbatim>\<open>queueTail\<close>, head first.
  \<open>executed\<close> is instrumentation: the jobs \<^verbatim>\<open>runQueueEntry\<close> has taken off the queue, in
  the order it ran them. No operation reads it. \<open>uvars\<close> are the variables of the client
  program.
\<close>

record heap =
  promises :: "nat \<Rightarrow> promise"
  nextPromise :: nat
  pairs :: "nat \<Rightarrow> pair"
  nextPair :: nat
  closures :: "nat \<Rightarrow> all_closure"
  nextClosure :: nat
  elements :: "nat \<Rightarrow> all_element"
  nextElement :: nat
  queue :: "job list"
  executed :: "job list"
  uvars :: "nat \<Rightarrow> val"

definition empty_heap :: heap where
  "empty_heap = \<lparr>
     promises = (\<lambda>_. \<lparr>state = None, pvalue = VUndefined, fulfillReactions = [], rejectReactions = []\<rparr>),
     nextPromise = 0,
     pairs = (\<lambda>_. \<lparr>target = 0, alreadyResolved = False\<rparr>),
     nextPair = 0,
     closures = (\<lambda>_. \<lparr>all_values = [], all_index = 0, remaining = 0, capability = 0\<rparr>),
     nextClosure = 0,
     elements = (\<lambda>_. \<lparr>F_closure = 0, F_index = 0, F_alreadyCalled = False\<rparr>),
     nextElement = 0,
     queue = [],
     executed = [],
     uvars = (\<lambda>_. VUndefined)\<rparr>"

subsection \<open>Job queue\<close>

definition enqueueJob :: "job \<Rightarrow> heap \<Rightarrow> heap" where
  "enqueueJob job s = s\<lparr>queue := queue s @ [job]\<rparr>"

definition dequeueJob :: "heap \<Rightarrow> job option \<times> heap" where
  "dequeueJob s = (case queue s of
       [] \<Rightarrow> (None, s)
     | ret # rest \<Rightarrow> (Some ret, s\<lparr>queue := rest\<rparr>))"

subsection \<open>Raw fulfill and reject\<close>

definition reaction_job :: "val \<Rightarrow> reaction \<Rightarrow> job" where
  "reaction_job v r = ReactionJob (handler r) (resolve r) (reject r) v"

definition doFulfill :: "nat \<Rightarrow> val \<Rightarrow> heap \<Rightarrow> heap" where
  "doFulfill p v s =
     (if state (promises s p) \<noteq> None then s
      else
        let reactions = fulfillReactions (promises s p);
            s1 = s\<lparr>promises := (promises s)(p :=
                   \<lparr>state = Some True, pvalue = v, fulfillReactions = [], rejectReactions = []\<rparr>)\<rparr>
        in fold (\<lambda>r. enqueueJob (reaction_job v r)) reactions s1)"

definition doReject :: "nat \<Rightarrow> val \<Rightarrow> heap \<Rightarrow> heap" where
  "doReject p v s =
     (if state (promises s p) \<noteq> None then s
      else
        let reactions = rejectReactions (promises s p);
            s1 = s\<lparr>promises := (promises s)(p :=
                   \<lparr>state = Some False, pvalue = v, fulfillReactions = [], rejectReactions = []\<rparr>)\<rparr>
        in fold (\<lambda>r. enqueueJob (reaction_job v r)) reactions s1)"

subsection \<open>Resolution functions\<close>

definition createResolutionFunctions :: "nat \<Rightarrow> heap \<Rightarrow> nat \<times> heap" where
  "createResolutionFunctions p s =
     (nextPair s,
      s\<lparr>pairs := (pairs s)(nextPair s := \<lparr>target = p, alreadyResolved = False\<rparr>),
        nextPair := Suc (nextPair s)\<rparr>)"

definition neutralize :: "nat \<Rightarrow> heap \<Rightarrow> heap" where
  "neutralize k s = s\<lparr>pairs := (pairs s)(k := (pairs s k)\<lparr>alreadyResolved := True\<rparr>)\<rparr>"

definition reject_fn :: "nat \<Rightarrow> val \<Rightarrow> heap \<Rightarrow> heap" where
  "reject_fn k err s =
     (if alreadyResolved (pairs s k) then s
      else
        let p = target (pairs s k);
            s1 = neutralize k s
        in if state (promises s1 p) \<noteq> None then s1
           else doReject p err s1)"

definition resolve_fn :: "nat \<Rightarrow> val \<Rightarrow> heap \<Rightarrow> heap" where
  "resolve_fn k v s =
     (if alreadyResolved (pairs s k) then s
      else
        let p = target (pairs s k);
            s1 = neutralize k s
        in if state (promises s1 p) \<noteq> None then s1
           else if v = VPromise p then doReject p (VError ''TypeError'' ''self resolution'') s1
           else
             (case (if is_object v then get_then v else Normal (VBool False)) of
                Thrown e \<Rightarrow> doReject p e s1
              | Normal then' \<Rightarrow>
                  if is_function then' then
                    let (t, s2) = createResolutionFunctions p s1
                    in enqueueJob (ThenableJob v then' (VResolveFn t) (VRejectFn t)) s2
                  else doFulfill p v s1))"

subsection \<open>Promise objects\<close>

text \<open>
  The part of the constructor that runs before the executor: the new object with its four
  properties, and its resolution pair.
\<close>

definition new_promise :: "heap \<Rightarrow> nat \<times> nat \<times> heap" where
  "new_promise s =
     (let p = nextPromise s;
          s1 = s\<lparr>promises := (promises s)(p :=
                 \<lparr>state = None, pvalue = VUndefined, fulfillReactions = [], rejectReactions = []\<rparr>),
               nextPromise := Suc p\<rparr>;
          (t, s2) = createResolutionFunctions p s1
      in (p, t, s2))"

text \<open>
  Calling a function value is a parameter of every operation that runs code of the client
  program: \<open>call f this args s\<close> is \<open>None\<close> when the call does not return.
\<close>

type_synonym caller = "val \<Rightarrow> val \<Rightarrow> val list \<Rightarrow> heap \<Rightarrow> (val outcome \<times> heap) option"

definition cons :: "caller \<Rightarrow> bool \<Rightarrow> val \<Rightarrow> heap \<Rightarrow> (val outcome \<times> heap) option" where
  "cons call new_target executor s =
     (if \<not> new_target then
        Some (Thrown (VError ''TypeError'' ''Promise must be called as a constructor''), s)
      else if \<not> is_function executor then
        Some (Thrown (VError ''TypeError'' ''executor must be callable''), s)
      else
        let (p, t, s1) = new_promise s
        in (case call executor VUndefined [VResolveFn t, VRejectFn t] s1 of
              None \<Rightarrow> None
            | Some (Normal _, s2) \<Rightarrow> Some (Normal (VPromise p), s2)
            | Some (Thrown e, s2) \<Rightarrow> Some (Normal (VPromise p), reject_fn t e s2)))"

text \<open>
  \<^verbatim>\<open>new Promise(function (resolve, reject) { resolveFn = resolve; rejectFn = reject; })\<close>,
  as \<^verbatim>\<open>then\<close>, \<^verbatim>\<open>all\<close> and \<^verbatim>\<open>race\<close> call it, is \<open>new_promise\<close>: that executor only
  stores the pair. \<^verbatim>\<open>Promise.resolve\<close> and \<^verbatim>\<open>Promise.reject\<close> pass an executor that calls
  one function of the pair once.
\<close>

definition resolve_static :: "val \<Rightarrow> heap \<Rightarrow> val \<times> heap" where
  "resolve_static v s =
     (if isPromise v then (v, s)
      else let (p, t, s1) = new_promise s in (VPromise p, resolve_fn t v s1))"

definition reject_static :: "val \<Rightarrow> heap \<Rightarrow> val \<times> heap" where
  "reject_static v s =
     (let (p, t, s1) = new_promise s in (VPromise p, reject_fn t v s1))"

definition as_handler :: "handler \<Rightarrow> val \<Rightarrow> handler" where
  "as_handler dflt h = (if is_function h then Handler h else dflt)"

definition then_method :: "val \<Rightarrow> val \<Rightarrow> val \<Rightarrow> heap \<Rightarrow> val outcome \<times> heap" where
  "then_method this onFulfilled onRejected s =
     (case this of
        VPromise src \<Rightarrow>
          let (p, t, s1) = new_promise s;
              onF = as_handler Identity onFulfilled;
              onR = as_handler Thrower onRejected
          in (Normal (VPromise p),
              (case state (promises s1 src) of
                 None \<Rightarrow>
                   s1\<lparr>promises := (promises s1)(src := (promises s1 src)\<lparr>
                        fulfillReactions := fulfillReactions (promises s1 src) @
                          [\<lparr>handler = onF, resolve = VResolveFn t, reject = VRejectFn t\<rparr>],
                        rejectReactions := rejectReactions (promises s1 src) @
                          [\<lparr>handler = onR, resolve = VResolveFn t, reject = VRejectFn t\<rparr>]\<rparr>)\<rparr>
               | Some True \<Rightarrow>
                   enqueueJob (ReactionJob onF (VResolveFn t) (VRejectFn t)
                     (pvalue (promises s1 src))) s1
               | Some False \<Rightarrow>
                   enqueueJob (ReactionJob onR (VResolveFn t) (VRejectFn t)
                     (pvalue (promises s1 src))) s1))
      | _ \<Rightarrow> (Thrown (VError ''TypeError'' ''Promise required''), s))"

subsection \<open>Promise.all and Promise.race\<close>

text \<open>
  \<^verbatim>\<open>list.forEach(f)\<close> on an array: the callback runs on each element in order, and an
  error it throws ends the loop.
\<close>

fun forEach :: "('a \<Rightarrow> heap \<Rightarrow> val outcome \<times> heap) \<Rightarrow> 'a list \<Rightarrow> heap \<Rightarrow> val outcome \<times> heap" where
  "forEach f [] s = (Normal VUndefined, s)"
| "forEach f (x # xs) s =
     (case f x s of
        (Thrown e, s1) \<Rightarrow> (Thrown e, s1)
      | (Normal _, s1) \<Rightarrow> forEach f xs s1)"

text \<open>
  \<^verbatim>\<open>values[i] = v\<close>: an index past the end extends the array; the holes this leaves read
  as \<^verbatim>\<open>undefined\<close>.
\<close>

definition array_set :: "val list \<Rightarrow> nat \<Rightarrow> val \<Rightarrow> val list" where
  "array_set xs i v =
     (if i < length xs then xs[i := v]
      else xs @ replicate (i - length xs) VUndefined @ [v])"

definition promiseAllElement :: "nat \<Rightarrow> val \<Rightarrow> heap \<Rightarrow> heap" where
  "promiseAllElement F v s =
     (if F_alreadyCalled (elements s F) then s
      else
        let c = F_closure (elements s F);
            cl = closures s c;
            cl1 = cl\<lparr>all_values := array_set (all_values cl) (F_index (elements s F)) v,
                     remaining := remaining cl - 1\<rparr>;
            s1 = s\<lparr>elements := (elements s)(F := (elements s F)\<lparr>F_alreadyCalled := True\<rparr>),
                   closures := (closures s)(c := cl1)\<rparr>
        in if remaining cl1 = 0 then resolve_fn (capability cl1) (VArr (all_values cl1)) s1
           else s1)"

text \<open>The callback \<^verbatim>\<open>all\<close> passes to \<^verbatim>\<open>forEach\<close>; \<open>c\<close> is the closure of the call.\<close>

definition all_each :: "nat \<Rightarrow> val \<Rightarrow> heap \<Rightarrow> val outcome \<times> heap" where
  "all_each c x s =
     (let (t, s1) = resolve_static x s;
          F = nextElement s1;
          cl = closures s1 c;
          s2 = s1\<lparr>elements := (elements s1)(F :=
                    \<lparr>F_closure = c, F_index = all_index cl, F_alreadyCalled = False\<rparr>),
                  nextElement := Suc F,
                  closures := (closures s1)(c :=
                    cl\<lparr>all_index := Suc (all_index cl), remaining := remaining cl + 1\<rparr>)\<rparr>
      in then_method t (VAllElem F) (VRejectFn (capability cl)) s2)"

definition all :: "val \<Rightarrow> heap \<Rightarrow> val outcome \<times> heap" where
  "all list s =
     (let (p, t, s1) = new_promise s;
          c = nextClosure s1;
          s2 = s1\<lparr>closures := (closures s1)(c :=
                    \<lparr>all_values = [], all_index = 0, remaining = 1, capability = t\<rparr>),
                  nextClosure := Suc c\<rparr>
      in (case list of
            VArr xs \<Rightarrow>
              (case forEach (all_each c) xs s2 of
                 (Thrown e, s3) \<Rightarrow> (Thrown e, s3)
               | (Normal _, s3) \<Rightarrow>
                   let cl = (closures s3 c)\<lparr>remaining := remaining (closures s3 c) - 1\<rparr>;
                       s4 = s3\<lparr>closures := (closures s3)(c := cl)\<rparr>
                   in if remaining cl = 0
                      then (Normal (VPromise p), resolve_fn t (VArr (all_values cl)) s4)
                      else (Normal (VPromise p), s4))
          | _ \<Rightarrow> (Thrown (VError ''TypeError'' ''list.forEach is not a function''), s2)))"

definition race_each :: "nat \<Rightarrow> val \<Rightarrow> heap \<Rightarrow> val outcome \<times> heap" where
  "race_each t x s =
     (let (q, s1) = resolve_static x s
      in then_method q (VResolveFn t) (VRejectFn t) s1)"

definition race :: "val \<Rightarrow> heap \<Rightarrow> val outcome \<times> heap" where
  "race list s =
     (let (p, t, s1) = new_promise s
      in (case list of
            VArr xs \<Rightarrow>
              (case forEach (race_each t) xs s1 of
                 (Thrown e, s2) \<Rightarrow> (Thrown e, s2)
               | (Normal _, s2) \<Rightarrow> (Normal (VPromise p), s2))
          | _ \<Rightarrow> (Thrown (VError ''TypeError'' ''list.forEach is not a function''), s1)))"

subsection \<open>Promise.prototype.catch and Promise.try\<close>

definition catch_method :: "caller \<Rightarrow> val \<Rightarrow> val \<Rightarrow> heap \<Rightarrow> (val outcome \<times> heap) option" where
  "catch_method call this onRejected s =
     (if this = VUndefined \<or> this = VNull then
        Some (Thrown (VError ''TypeError'' ''cannot read property then''), s)
      else
        (case (if is_object this then get_then this else Normal VUndefined) of
           Thrown e \<Rightarrow> Some (Thrown e, s)
         | Normal then' \<Rightarrow> call then' this [VUndefined, onRejected] s))"

definition try_static :: "caller \<Rightarrow> val \<Rightarrow> heap \<Rightarrow> (val outcome \<times> heap) option" where
  "try_static call func s =
     (let (p, t, s1) = new_promise s
      in (case call func VUndefined [] s1 of
            None \<Rightarrow> None
          | Some (Normal r, s2) \<Rightarrow> Some (Normal (VPromise p), resolve_fn t r s2)
          | Some (Thrown e, s2) \<Rightarrow> Some (Normal (VPromise p), reject_fn t e s2)))"

subsection \<open>Running the queue\<close>

text \<open>
  Every job the polyfill builds has one of the two shapes of \<open>job\<close> with all members
  truthy, so the \<^verbatim>\<open>'internal error'\<close> branch of \<^verbatim>\<open>runQueueEntry\<close> has no job to take it.
  \<^verbatim>\<open>job.resolve\<close> and \<^verbatim>\<open>job.reject\<close> are called as functions: \<^verbatim>\<open>this\<close> is the job
  object there, which no function of the model reads as a promise.
\<close>

definition run_handler :: "caller \<Rightarrow> handler \<Rightarrow> val \<Rightarrow> heap \<Rightarrow> (val outcome \<times> heap) option" where
  "run_handler call h v s =
     (case h of
        Identity \<Rightarrow> Some (Normal v, s)
      | Thrower \<Rightarrow> Some (Thrown v, s)
      | Handler f \<Rightarrow> call f VUndefined [v] s)"

definition run_job :: "caller \<Rightarrow> job \<Rightarrow> heap \<Rightarrow> (val outcome \<times> heap) option" where
  "run_job call job s =
     (case job of
        ThenableJob thenable then' res rej \<Rightarrow>
          (case call then' thenable [res, rej] s of
             None \<Rightarrow> None
           | Some (Normal _, s1) \<Rightarrow> Some (Normal (VBool True), s1)
           | Some (Thrown e, s1) \<Rightarrow>
               (case call rej VUndefined [e] s1 of
                  None \<Rightarrow> None
                | Some (Normal _, s2) \<Rightarrow> Some (Normal (VBool True), s2)
                | Some (Thrown e2, s2) \<Rightarrow> Some (Thrown e2, s2)))
      | ReactionJob h res rej v \<Rightarrow>
          (case (case run_handler call h v s of
                   None \<Rightarrow> None
                 | Some (Normal r, s1) \<Rightarrow> call res VUndefined [r] s1
                 | Some (Thrown e, s1) \<Rightarrow> Some (Thrown e, s1)) of
             None \<Rightarrow> None
           | Some (Normal _, s2) \<Rightarrow> Some (Normal (VBool True), s2)
           | Some (Thrown e, s2) \<Rightarrow>
               (case call rej VUndefined [e] s2 of
                  None \<Rightarrow> None
                | Some (Normal _, s3) \<Rightarrow> Some (Normal (VBool True), s3)
                | Some (Thrown e2, s3) \<Rightarrow> Some (Thrown e2, s3))))"

definition runQueueEntry :: "caller \<Rightarrow> heap \<Rightarrow> (val outcome \<times> heap) option" where
  "runQueueEntry call s =
     (case dequeueJob s of
        (None, s1) \<Rightarrow> Some (Normal (VBool False), s1)
      | (Some job, s1) \<Rightarrow> run_job call job (s1\<lparr>executed := executed s1 @ [job]\<rparr>))"

text \<open>
  \<^verbatim>\<open>while (runQueueEntry()) {}\<close>. The loop need not end, so it runs on fuel: \<open>None\<close> is a
  loop that is still running when the fuel is spent.
\<close>

fun runQueue :: "caller \<Rightarrow> nat \<Rightarrow> heap \<Rightarrow> (val outcome \<times> heap) option" where
  "runQueue call 0 s = None"
| "runQueue call (Suc n) s =
     (case runQueueEntry call s of
        None \<Rightarrow> None
      | Some (Thrown e, s1) \<Rightarrow> Some (Thrown e, s1)
      | Some (Normal b, s1) \<Rightarrow>
          if b = VBool True then runQueue call n s1 else Some (Normal VUndefined, s1))"

section \<open>Client programs\<close>

text \<open>
  The polyfill calls back into its client: the executor, the reaction handlers and the
  \<^verbatim>\<open>then\<close> of a thenable are functions of the program that uses it, and they call the
  polyfill again. A client function is a block of statements over the public interface; its
  variables live in \<open>uvars\<close>, shared by all functions as closure variables are.
\<close>

datatype expr =
    Lit val
  | Arg nat          \<comment> \<open>an argument of the running function, \<^verbatim>\<open>undefined\<close> when absent\<close>
  | Var nat
  | MkObj expr       \<comment> \<open>\<^verbatim>\<open>{then: e}\<close>\<close>
  | MkArr "expr list"

datatype static = SResolve | SReject | SAll | SRace | STry

datatype stmt =
    Assign nat expr                   \<comment> \<open>\<^verbatim>\<open>x = e\<close>\<close>
  | CallFn nat expr expr "expr list"  \<comment> \<open>\<^verbatim>\<open>x = f.call(this, args)\<close>\<close>
  | NewPromise nat expr               \<comment> \<open>\<^verbatim>\<open>x = new Promise(e)\<close>\<close>
  | CallPromise nat expr              \<comment> \<open>\<^verbatim>\<open>x = Promise(e)\<close>\<close>
  | Static nat static expr            \<comment> \<open>\<^verbatim>\<open>x = Promise.resolve(e)\<close> and the like\<close>
  | RunQueue                          \<comment> \<open>\<^verbatim>\<open>Promise.runQueue()\<close>\<close>
  | If expr "stmt list" "stmt list"
  | Return expr
  | Throw expr
  | TryCatch "stmt list" nat "stmt list"  \<comment> \<open>\<^verbatim>\<open>try { a } catch (x) { b }\<close>\<close>

datatype completion = Next | Returned val | Raised val

fun arg :: "val list \<Rightarrow> nat \<Rightarrow> val" where
  "arg [] n = VUndefined"
| "arg (x # xs) 0 = x"
| "arg (x # xs) (Suc n) = arg xs n"

fun eval :: "val list \<Rightarrow> heap \<Rightarrow> expr \<Rightarrow> val" where
  "eval args s (Lit v) = v"
| "eval args s (Arg n) = arg args n"
| "eval args s (Var x) = uvars s x"
| "eval args s (MkObj e) = VObj (eval args s e)"
| "eval args s (MkArr es) = VArr (map (eval args s) es)"

fun truthy :: "val \<Rightarrow> bool" where
  "truthy VUndefined = False"
| "truthy VNull = False"
| "truthy (VBool b) = b"
| "truthy (VNum n) = (n \<noteq> 0)"
| "truthy (VStr t) = (t \<noteq> [])"
| "truthy _ = True"

definition store :: "nat \<Rightarrow> (val outcome \<times> heap) option \<Rightarrow> (completion \<times> heap) option" where
  "store x r =
     (case r of
        None \<Rightarrow> None
      | Some (Normal v, s) \<Rightarrow> Some (Next, s\<lparr>uvars := (uvars s)(x := v)\<rparr>)
      | Some (Thrown e, s) \<Rightarrow> Some (Raised e, s))"

definition call_static :: "caller \<Rightarrow> static \<Rightarrow> val \<Rightarrow> heap \<Rightarrow> (val outcome \<times> heap) option" where
  "call_static call f v s =
     (case f of
        SResolve \<Rightarrow> (let (r, s1) = resolve_static v s in Some (Normal r, s1))
      | SReject \<Rightarrow> (let (r, s1) = reject_static v s in Some (Normal r, s1))
      | SAll \<Rightarrow> Some (all v s)
      | SRace \<Rightarrow> Some (race v s)
      | STry \<Rightarrow> try_static call v s)"

fun exec_stmt :: "caller \<Rightarrow> (heap \<Rightarrow> (val outcome \<times> heap) option) \<Rightarrow> val list \<Rightarrow>
    stmt \<Rightarrow> heap \<Rightarrow> (completion \<times> heap) option"
and exec_block :: "caller \<Rightarrow> (heap \<Rightarrow> (val outcome \<times> heap) option) \<Rightarrow> val list \<Rightarrow>
    stmt list \<Rightarrow> heap \<Rightarrow> (completion \<times> heap) option" where
  "exec_stmt call drain args (Assign x e) s =
     Some (Next, s\<lparr>uvars := (uvars s)(x := eval args s e)\<rparr>)"
| "exec_stmt call drain args (CallFn x f this es) s =
     store x (call (eval args s f) (eval args s this) (map (eval args s) es) s)"
| "exec_stmt call drain args (NewPromise x e) s =
     store x (cons call True (eval args s e) s)"
| "exec_stmt call drain args (CallPromise x e) s =
     store x (cons call False (eval args s e) s)"
| "exec_stmt call drain args (Static x f e) s =
     store x (call_static call f (eval args s e) s)"
| "exec_stmt call drain args RunQueue s =
     (case drain s of
        None \<Rightarrow> None
      | Some (Normal _, s1) \<Rightarrow> Some (Next, s1)
      | Some (Thrown e, s1) \<Rightarrow> Some (Raised e, s1))"
| "exec_stmt call drain args (If e a b) s =
     (if truthy (eval args s e) then exec_block call drain args a s
      else exec_block call drain args b s)"
| "exec_stmt call drain args (Return e) s = Some (Returned (eval args s e), s)"
| "exec_stmt call drain args (Throw e) s = Some (Raised (eval args s e), s)"
| "exec_stmt call drain args (TryCatch a x b) s =
     (case exec_block call drain args a s of
        None \<Rightarrow> None
      | Some (Raised e, s1) \<Rightarrow> exec_block call drain args b (s1\<lparr>uvars := (uvars s1)(x := e)\<rparr>)
      | Some (c, s1) \<Rightarrow> Some (c, s1))"
| "exec_block call drain args [] s = Some (Next, s)"
| "exec_block call drain args (c # cs) s =
     (case exec_stmt call drain args c s of
        None \<Rightarrow> None
      | Some (Next, s1) \<Rightarrow> exec_block call drain args cs s1
      | Some (r, s1) \<Rightarrow> Some (r, s1))"

text \<open>A function body that ends without \<^verbatim>\<open>return\<close> returns \<^verbatim>\<open>undefined\<close>.\<close>

definition call_body :: "caller \<Rightarrow> (heap \<Rightarrow> (val outcome \<times> heap) option) \<Rightarrow> stmt list \<Rightarrow>
    val list \<Rightarrow> heap \<Rightarrow> (val outcome \<times> heap) option" where
  "call_body call drain body args s =
     (case exec_block call drain args body s of
        None \<Rightarrow> None
      | Some (Next, s1) \<Rightarrow> Some (Normal VUndefined, s1)
      | Some (Returned v, s1) \<Rightarrow> Some (Normal v, s1)
      | Some (Raised e, s1) \<Rightarrow> Some (Thrown e, s1))"

text \<open>
  Calling a function value. The functions of the polyfill ignore surplus arguments and
  read a missing one as \<^verbatim>\<open>undefined\<close>; the resolution functions and
  \<^verbatim>\<open>promiseAllElement\<close> return \<^verbatim>\<open>undefined\<close>.
\<close>

definition apply_fn :: "caller \<Rightarrow> (heap \<Rightarrow> (val outcome \<times> heap) option) \<Rightarrow>
    (nat \<Rightarrow> stmt list) \<Rightarrow> caller" where
  "apply_fn call drain prog f this args s =
     (case f of
        VResolveFn k \<Rightarrow> Some (Normal VUndefined, resolve_fn k (arg args 0) s)
      | VRejectFn k \<Rightarrow> Some (Normal VUndefined, reject_fn k (arg args 0) s)
      | VAllElem F \<Rightarrow> Some (Normal VUndefined, promiseAllElement F (arg args 0) s)
      | VThenMethod \<Rightarrow> Some (then_method this (arg args 0) (arg args 1) s)
      | VCatchMethod \<Rightarrow> catch_method call this (arg args 0) s
      | VFun i \<Rightarrow> call_body call drain (prog i) args s
      | _ \<Rightarrow> Some (Thrown (VError ''TypeError'' ''not a function''), s))"

text \<open>
  The fuel bounds the depth of nested calls and the length of every queue run; a
  computation that needs more is \<open>None\<close>.
\<close>

primrec callf :: "(nat \<Rightarrow> stmt list) \<Rightarrow> nat \<Rightarrow> caller" where
  "callf prog 0 = (\<lambda>f this args s. None)"
| "callf prog (Suc n) = apply_fn (callf prog n) (runQueue (callf prog n) n) prog"

text \<open>The operations as the host calls them.\<close>

definition Promise_new :: "(nat \<Rightarrow> stmt list) \<Rightarrow> nat \<Rightarrow> val \<Rightarrow> heap \<Rightarrow> (val outcome \<times> heap) option" where
  "Promise_new prog fuel executor s = cons (callf prog fuel) True executor s"

definition Promise_runQueue :: "(nat \<Rightarrow> stmt list) \<Rightarrow> nat \<Rightarrow> heap \<Rightarrow> (val outcome \<times> heap) option" where
  "Promise_runQueue prog fuel s = runQueue (callf prog fuel) fuel s"

definition run :: "(nat \<Rightarrow> stmt list) \<Rightarrow> nat \<Rightarrow> stmt list \<Rightarrow> heap \<Rightarrow> (completion \<times> heap) option" where
  "run prog fuel body s =
     exec_block (callf prog fuel) (runQueue (callf prog fuel) fuel) [] body s"

section \<open>Basic facts\<close>

text \<open>What settling and allocating do to the store, as record updates.\<close>

lemma fold_enqueueJob:
  "fold (\<lambda>r. enqueueJob (f r)) rs s = s\<lparr>queue := queue s @ map f rs\<rparr>"
  by (induction rs arbitrary: s) (simp_all add: enqueueJob_def)

lemma doFulfill_eq:
  "doFulfill p v s =
     (if state (promises s p) \<noteq> None then s
      else s\<lparr>promises := (promises s)(p :=
               \<lparr>state = Some True, pvalue = v, fulfillReactions = [], rejectReactions = []\<rparr>),
             queue := queue s @ map (reaction_job v) (fulfillReactions (promises s p))\<rparr>)"
  by (simp add: doFulfill_def Let_def fold_enqueueJob)

lemma doReject_eq:
  "doReject p v s =
     (if state (promises s p) \<noteq> None then s
      else s\<lparr>promises := (promises s)(p :=
               \<lparr>state = Some False, pvalue = v, fulfillReactions = [], rejectReactions = []\<rparr>),
             queue := queue s @ map (reaction_job v) (rejectReactions (promises s p))\<rparr>)"
  by (simp add: doReject_def Let_def fold_enqueueJob)

lemma new_promise_eq:
  "new_promise s =
     (nextPromise s, nextPair s,
      s\<lparr>promises := (promises s)(nextPromise s :=
           \<lparr>state = None, pvalue = VUndefined, fulfillReactions = [], rejectReactions = []\<rparr>),
        nextPromise := Suc (nextPromise s),
        pairs := (pairs s)(nextPair s := \<lparr>target = nextPromise s, alreadyResolved = False\<rparr>),
        nextPair := Suc (nextPair s)\<rparr>)"
  by (simp add: new_promise_def createResolutionFunctions_def Let_def)

subsection \<open>What every operation preserves\<close>

text \<open>
  \<open>later s s'\<close>: no promise is deallocated, a promise that is settled in \<open>s\<close> has the same
  record in \<open>s'\<close>, and the jobs run or queued in \<open>s\<close> are, in the same order, the first
  jobs run or queued in \<open>s'\<close>.
\<close>

definition later :: "heap \<Rightarrow> heap \<Rightarrow> bool" where
  "later s s' \<longleftrightarrow>
     nextPromise s \<le> nextPromise s' \<and>
     (\<forall>p < nextPromise s. state (promises s p) \<noteq> None \<longrightarrow> promises s' p = promises s p) \<and>
     prefix (executed s @ queue s) (executed s' @ queue s')"

lemma later_refl [simp]: "later s s"
  by (simp add: later_def)

lemma later_trans: "later s s1 \<Longrightarrow> later s1 s2 \<Longrightarrow> later s s2"
  unfolding later_def by (metis prefix_order.order_trans le_trans less_le_trans)

lemma later_enqueueJob: "later s (enqueueJob j s)"
  by (simp add: later_def enqueueJob_def)

lemma later_doFulfill: "later s (doFulfill p v s)"
  by (simp add: later_def doFulfill_eq)

lemma later_doReject: "later s (doReject p v s)"
  by (simp add: later_def doReject_eq)

lemma later_neutralize: "later s (neutralize k s)"
  by (simp add: later_def neutralize_def)

lemma later_reject_fn: "later s (reject_fn k e s)"
  by (simp add: later_def reject_fn_def neutralize_def doReject_eq Let_def)

lemma later_resolve_fn: "later s (resolve_fn k v s)"
  by (simp add: later_def resolve_fn_def neutralize_def doReject_eq doFulfill_eq
      createResolutionFunctions_def enqueueJob_def Let_def split: outcome.splits)

lemma later_new_promise: "later s (snd (snd (new_promise s)))"
  by (simp add: later_def new_promise_eq)

lemma later_resolve_static: "later s (snd (resolve_static v s))"
  using later_trans [OF later_new_promise later_resolve_fn]
  by (simp add: resolve_static_def split_def Let_def)

lemma later_reject_static: "later s (snd (reject_static v s))"
  using later_trans [OF later_new_promise later_reject_fn]
  by (simp add: reject_static_def split_def Let_def)

lemma later_then_method: "later s (snd (then_method this a b s))"
proof (cases this)
  case (VPromise src)
  have "later (snd (snd (new_promise s))) (snd (then_method this a b s))"
    unfolding VPromise then_method_def
    by (auto simp: new_promise_eq Let_def later_def enqueueJob_def split: option.splits bool.splits)
  then show ?thesis using later_new_promise later_trans by blast
qed (simp_all add: then_method_def)



lemma later_frame:
  "later s (s\<lparr>elements := e, closures := c\<rparr>)"
  "later s (s\<lparr>elements := e, nextElement := n, closures := c\<rparr>)"
  "later s (s\<lparr>closures := c\<rparr>)"
  "later s (s\<lparr>closures := c, nextClosure := m\<rparr>)"
  "later s (s\<lparr>uvars := u\<rparr>)"
  by (simp_all add: later_def)

lemma later_promiseAllElement: "later s (promiseAllElement F v s)"
  using later_trans [OF later_frame(1) later_resolve_fn]
  by (simp add: promiseAllElement_def Let_def later_frame)

lemma later_all_each: "later s (snd (all_each c x s))"
  unfolding all_each_def Let_def split_def
  by (rule later_trans [OF later_resolve_static later_trans [OF later_frame(2) later_then_method]])

lemma later_forEach:
  assumes "\<And>x s. later s (snd (f x s))"
  shows "later s (snd (forEach f xs s))"
proof (induction xs arbitrary: s)
  case Nil
  show ?case by simp
next
  case (Cons x xs)
  obtain r s1 where f: "f x s = (r, s1)" by (cases "f x s")
  have 1: "later s s1" using assms [of s x] f by simp
  show ?case
  proof (cases r)
    case (Normal v)
    then show ?thesis using f 1 Cons.IH [of s1] by (auto intro: later_trans)
  next
    case (Thrown e)
    then show ?thesis using f 1 by simp
  qed
qed

lemma later_all: "later s (snd (all list s))"
proof -
  obtain p t s1 where np: "new_promise s = (p, t, s1)" by (cases "new_promise s") auto
  have 1: "later s s1" using later_new_promise [of s] np by simp
  define s2 where "s2 = s1\<lparr>closures := (closures s1)(nextClosure s1 :=
      \<lparr>all_values = [], all_index = 0, remaining = 1, capability = t\<rparr>),
      nextClosure := Suc (nextClosure s1)\<rparr>"
  have 2: "later s1 s2" by (simp add: s2_def later_frame)
  have 12: "later s s2" using 1 2 by (rule later_trans)
  show ?thesis
  proof (cases list)
    case (VArr xs)
    obtain r s3 where fe: "forEach (all_each (nextClosure s1)) xs s2 = (r, s3)"
      by (cases "forEach (all_each (nextClosure s1)) xs s2")
    have 3: "later s2 s3"
      using later_forEach [of "all_each (nextClosure s1)" s2 xs, OF later_all_each] fe by simp
    have "later s3 (snd (all list s))"
    proof (cases r)
      case (Thrown e)
      then show ?thesis using np fe VArr by (simp add: all_def Let_def s2_def [symmetric])
    next
      case (Normal u)
      then show ?thesis
        using np fe VArr later_trans [OF later_frame(3) later_resolve_fn]
        by (simp add: all_def Let_def s2_def [symmetric] later_frame)
    qed
    then show ?thesis using 12 3 later_trans by blast
  qed (use np 12 in \<open>simp_all add: all_def Let_def s2_def [symmetric]\<close>)
qed

lemma later_race_each: "later s (snd (race_each t x s))"
  unfolding race_each_def Let_def split_def
  by (rule later_trans [OF later_resolve_static later_then_method])

lemma later_race: "later s (snd (race list s))"
proof -
  obtain p t s1 where np: "new_promise s = (p, t, s1)" by (cases "new_promise s") auto
  have 1: "later s s1" using later_new_promise [of s] np by simp
  show ?thesis
  proof (cases list)
    case (VArr xs)
    obtain r s2 where fe: "forEach (race_each t) xs s1 = (r, s2)"
      by (cases "forEach (race_each t) xs s1")
    have 2: "later s1 s2"
      using later_forEach [of "race_each t" s1 xs, OF later_race_each] fe by simp
    have "snd (race list s) = s2"
      using np fe VArr by (auto simp: race_def split: outcome.splits)
    then show ?thesis using 1 2 later_trans by metis
  qed (use np 1 in \<open>simp_all add: race_def\<close>)
qed

text \<open>The operations that run client code keep the relation when calls do.\<close>

definition call_later :: "caller \<Rightarrow> bool" where
  "call_later call \<longleftrightarrow> (\<forall>f this args s r s'. call f this args s = Some (r, s') \<longrightarrow> later s s')"

definition drain_later :: "(heap \<Rightarrow> (val outcome \<times> heap) option) \<Rightarrow> bool" where
  "drain_later drain \<longleftrightarrow> (\<forall>s r s'. drain s = Some (r, s') \<longrightarrow> later s s')"

lemma call_laterD: "call_later call \<Longrightarrow> call f this args s = Some (r, s') \<Longrightarrow> later s s'"
  by (auto simp: call_later_def)

lemma later_cons:
  assumes "call_later call" "cons call nt ex s = Some (r, s')"
  shows "later s s'"
proof (cases "nt \<and> is_function ex")
  case False
  then show ?thesis using assms(2) by (auto simp: cons_def split: if_splits)
next
  case True
  obtain p t s1 where np: "new_promise s = (p, t, s1)" by (cases "new_promise s") auto
  have 1: "later s s1" using later_new_promise [of s] np by simp
  obtain r2 s2 where c: "call ex VUndefined [VResolveFn t, VRejectFn t] s1 = Some (r2, s2)"
    using assms(2) True np by (auto simp: cons_def split: option.splits)
  have 2: "later s1 s2" using call_laterD [OF assms(1) c] .
  have "later s2 s'"
    using assms(2) True np c by (cases r2) (auto simp: cons_def later_reject_fn)
  then show ?thesis using 1 2 later_trans by blast
qed

lemma later_catch_method:
  assumes "call_later call" "catch_method call this h s = Some (r, s')"
  shows "later s s'"
  using assms(2) call_laterD [OF assms(1)]
  by (auto simp: catch_method_def split: if_splits outcome.splits)

lemma later_try_static:
  assumes "call_later call" "try_static call f s = Some (r, s')"
  shows "later s s'"
proof -
  obtain p t s1 where np: "new_promise s = (p, t, s1)" by (cases "new_promise s") auto
  have 1: "later s s1" using later_new_promise [of s] np by simp
  obtain r2 s2 where c: "call f VUndefined [] s1 = Some (r2, s2)"
    using assms(2) np by (auto simp: try_static_def split: option.splits)
  have 2: "later s1 s2" using call_laterD [OF assms(1) c] .
  have "later s2 s'"
    using assms(2) np c by (cases r2) (auto simp: try_static_def later_reject_fn later_resolve_fn)
  then show ?thesis using 1 2 later_trans by blast
qed

lemma later_run_handler:
  assumes "call_later call" "run_handler call h v s = Some (r, s')"
  shows "later s s'"
  using assms(2) call_laterD [OF assms(1)]
  by (auto simp: run_handler_def split: handler.splits)


lemma later_run_job:
  assumes cl: "call_later call" and run: "run_job call j s = Some (r, s')"
  shows "later s s'"
proof (cases j)
  case (ThenableJob thenable then' res rej)
  obtain r1 s1 where c1: "call then' thenable [res, rej] s = Some (r1, s1)"
    using run ThenableJob by (auto simp: run_job_def split: option.splits)
  have 1: "later s s1" using call_laterD [OF cl c1] .
  show ?thesis
  proof (cases r1)
    case (Normal u)
    then show ?thesis using run ThenableJob c1 1 by (simp add: run_job_def)
  next
    case (Thrown e)
    obtain r2 s2 where c2: "call rej VUndefined [e] s1 = Some (r2, s2)"
      using run ThenableJob c1 Thrown by (auto simp: run_job_def split: option.splits)
    have "s' = s2" using run ThenableJob c1 Thrown c2 by (cases r2) (simp_all add: run_job_def)
    then show ?thesis using 1 call_laterD [OF cl c2] later_trans by blast
  qed
next
  case (ReactionJob h res rej v)
  define mid where "mid = (case run_handler call h v s of
                   None \<Rightarrow> None
                 | Some (Normal r, s1) \<Rightarrow> call res VUndefined [r] s1
                 | Some (Thrown e, s1) \<Rightarrow> Some (Thrown e, s1))"
  obtain r2 s2 where m: "mid = Some (r2, s2)"
    using run ReactionJob by (auto simp: run_job_def mid_def [symmetric] split: option.splits)
  have 2: "later s s2"
  proof -
    obtain r1 s1 where h: "run_handler call h v s = Some (r1, s1)"
      using m by (auto simp: mid_def split: option.splits)
    have 1: "later s s1" using later_run_handler [OF cl h] .
    show ?thesis
    proof (cases r1)
      case (Normal u)
      then have "call res VUndefined [u] s1 = Some (r2, s2)" using m h by (simp add: mid_def)
      then show ?thesis using 1 call_laterD [OF cl] later_trans by blast
    next
      case (Thrown e)
      then show ?thesis using m h 1 by (simp add: mid_def)
    qed
  qed
  show ?thesis
  proof (cases r2)
    case (Normal u)
    then show ?thesis using run ReactionJob m 2 by (simp add: run_job_def mid_def [symmetric])
  next
    case (Thrown e)
    obtain r3 s3 where c3: "call rej VUndefined [e] s2 = Some (r3, s3)"
      using run ReactionJob m Thrown
      by (auto simp: run_job_def mid_def [symmetric] split: option.splits)
    have "s' = s3" using run ReactionJob m Thrown c3
      by (cases r3) (simp_all add: run_job_def mid_def [symmetric])
    then show ?thesis using 2 call_laterD [OF cl c3] later_trans by blast
  qed
qed

lemma later_runQueueEntry:
  assumes cl: "call_later call" and run: "runQueueEntry call s = Some (r, s')"
  shows "later s s'"
proof (cases "queue s")
  case Nil
  then show ?thesis using run by (simp add: runQueueEntry_def dequeueJob_def)
next
  case (Cons j q)
  have 1: "later s (s\<lparr>queue := q, executed := executed s @ [j]\<rparr>)"
    using Cons by (simp add: later_def)
  have "run_job call j (s\<lparr>queue := q, executed := executed s @ [j]\<rparr>) = Some (r, s')"
    using run Cons by (simp add: runQueueEntry_def dequeueJob_def)
  then show ?thesis using 1 later_run_job [OF cl] later_trans by blast
qed

lemma later_runQueue:
  assumes cl: "call_later call"
  shows "runQueue call n s = Some (r, s') \<Longrightarrow> later s s'"
proof (induction n arbitrary: s)
  case 0
  then show ?case by simp
next
  case (Suc n)
  obtain r1 s1 where e: "runQueueEntry call s = Some (r1, s1)"
    using Suc.prems by (auto split: option.splits)
  have 1: "later s s1" using later_runQueueEntry [OF cl e] .
  show ?case
  proof (cases "r1 = Normal (VBool True)")
    case True
    then have "runQueue call n s1 = Some (r, s')" using Suc.prems e by simp
    then show ?thesis using Suc.IH 1 later_trans by blast
  next
    case False
    then have "s' = s1" using Suc.prems e by (cases r1) (auto split: if_splits)
    then show ?thesis using 1 by simp
  qed
qed



lemma later_store:
  assumes "store x r0 = Some (c, s')" "\<And>r s1. r0 = Some (r, s1) \<Longrightarrow> later s s1"
  shows "later s s'"
proof -
  obtain r s1 where r0: "r0 = Some (r, s1)" using assms(1) by (auto simp: store_def split: option.splits)
  have "later s1 s'" using assms(1) r0 by (cases r) (auto simp: store_def later_frame)
  then show ?thesis using assms(2) [OF r0] later_trans by blast
qed

lemma later_call_static:
  assumes "call_later call" "call_static call f v s = Some (r, s')"
  shows "later s s'"
proof (cases f)
  case SResolve
  then show ?thesis using assms(2) later_resolve_static [of s v]
    by (auto simp: call_static_def split_def Let_def)
next
  case SReject
  then show ?thesis using assms(2) later_reject_static [of s v]
    by (auto simp: call_static_def split_def Let_def)
next
  case SAll
  then show ?thesis using assms(2) later_all [of s v] by (auto simp: call_static_def)
next
  case SRace
  then show ?thesis using assms(2) later_race [of s v] by (auto simp: call_static_def)
next
  case STry
  then show ?thesis using assms later_try_static by (auto simp: call_static_def)
qed

lemma later_exec:
  "call_later call \<Longrightarrow> drain_later drain \<Longrightarrow>
     exec_stmt call drain args c s = Some (r, s') \<Longrightarrow> later s s'"
  "call_later call \<Longrightarrow> drain_later drain \<Longrightarrow>
     exec_block call drain args cs s = Some (r, s') \<Longrightarrow> later s s'"
proof (induction call drain args c s and call drain args cs s arbitrary: r s' and r s'
    rule: exec_stmt_exec_block.induct)
  case (1 call drain args x e s)
  then show ?case by (auto simp: later_frame)
next
  case (2 call drain args x f this es s)
  from "2.prems"(3) have
    "store x (call (eval args s f) (eval args s this) (map (eval args s) es) s) = Some (r, s')"
    by simp
  then show ?case by (rule later_store) (use "2.prems"(1) call_laterD in blast)
next
  case (3 call drain args x e s)
  from "3.prems"(3) have "store x (cons call True (eval args s e) s) = Some (r, s')" by simp
  then show ?case by (rule later_store) (use "3.prems"(1) later_cons in blast)
next
  case (4 call drain args x e s)
  from "4.prems"(3) have "store x (cons call False (eval args s e) s) = Some (r, s')" by simp
  then show ?case by (rule later_store) (use "4.prems"(1) later_cons in blast)
next
  case (5 call drain args x f e s)
  from "5.prems"(3) have "store x (call_static call f (eval args s e) s) = Some (r, s')" by simp
  then show ?case by (rule later_store) (use "5.prems"(1) later_call_static in blast)
next
  case (6 call drain args s)
  then show ?case by (auto simp: drain_later_def split: option.splits outcome.splits)
next
  case (7 call drain args e a b s)
  then show ?case by (auto split: if_splits)
next
  case (8 call drain args e s)
  then show ?case by auto
next
  case (9 call drain args e s)
  then show ?case by auto
next
  case (10 call drain args a x b s)
  obtain c1 s1 where a: "exec_block call drain args a s = Some (c1, s1)"
    using "10.prems"(3) by (auto split: option.splits)
  have 1: "later s s1" using "10.IH"(1) "10.prems"(1,2) a by blast
  show ?case
  proof (cases c1)
    case (Raised e)
    have b: "exec_block call drain args b (s1\<lparr>uvars := (uvars s1)(x := e)\<rparr>) = Some (r, s')"
      using "10.prems"(3) a Raised by simp
    have "later (s1\<lparr>uvars := (uvars s1)(x := e)\<rparr>) s'"
      using "10.IH"(2) [OF a refl Raised "10.prems"(1,2) b] by simp
    then show ?thesis using 1 later_frame(5) later_trans by blast
  qed (use "10.prems"(3) a 1 in auto)
next
  case (11 call drain args s)
  then show ?case by auto
next
  case (12 call drain args c cs s)
  obtain c1 s1 where a: "exec_stmt call drain args c s = Some (c1, s1)"
    using "12.prems"(3) by (auto split: option.splits)
  have 1: "later s s1" using "12.IH"(1) "12.prems"(1,2) a by blast
  show ?case
  proof (cases c1)
    case Next
    have b: "exec_block call drain args cs s1 = Some (r, s')"
      using "12.prems"(3) a Next by simp
    have "later s1 s'"
      using "12.IH"(2) [OF a refl Next "12.prems"(1,2) b] by simp
    then show ?thesis using 1 later_trans by blast
  qed (use "12.prems"(3) a 1 in auto)
qed

lemma later_call_body:
  assumes "call_later call" "drain_later drain" "call_body call drain body args s = Some (r, s')"
  shows "later s s'"
  using assms(3) later_exec(2) [OF assms(1,2)]
  by (auto simp: call_body_def split: option.splits completion.splits)

lemma later_apply_fn:
  assumes "call_later call" "drain_later drain"
  shows "call_later (apply_fn call drain prog)"
  unfolding call_later_def
proof (intro allI impI)
  fix f this args s r s'
  assume a: "apply_fn call drain prog f this args s = Some (r, s')"
  show "later s s'"
  proof (cases f)
    case (VResolveFn k)
    then show ?thesis using a by (auto simp: apply_fn_def later_resolve_fn)
  next
    case (VRejectFn k)
    then show ?thesis using a by (auto simp: apply_fn_def later_reject_fn)
  next
    case (VAllElem F)
    then show ?thesis using a by (auto simp: apply_fn_def later_promiseAllElement)
  next
    case VThenMethod
    then show ?thesis using a later_then_method [of s this "arg args 0" "arg args 1"]
      by (auto simp: apply_fn_def)
  next
    case VCatchMethod
    then show ?thesis using a later_catch_method [OF assms(1)] by (auto simp: apply_fn_def)
  next
    case (VFun i)
    then show ?thesis using a later_call_body [OF assms] by (auto simp: apply_fn_def)
  qed (use a in \<open>auto simp: apply_fn_def\<close>)
qed

lemma later_callf: "call_later (callf prog n)"
proof (induction n)
  case 0
  show ?case by (simp add: call_later_def)
next
  case (Suc n)
  have "drain_later (runQueue (callf prog n) n)"
    using later_runQueue [OF Suc] by (auto simp: drain_later_def)
  then show ?case using Suc by (simp add: later_apply_fn)
qed

lemma later_Promise_runQueue: "Promise_runQueue prog n s = Some (r, s') \<Longrightarrow> later s s'"
  unfolding Promise_runQueue_def by (rule later_runQueue [OF later_callf])

lemma later_run: "run prog n body s = Some (c, s') \<Longrightarrow> later s s'"
  unfolding run_def
  using later_exec(2) [OF later_callf, of "runQueue (callf prog n) n" prog n "[]" body s c s']
    later_runQueue [OF later_callf]
  by (auto simp: drain_later_def)


lemma run_job_result:
  "run_job call j s = Some (Normal b, s') \<Longrightarrow> b = VBool True"
  unfolding run_job_def
  by (auto split: job.splits option.splits outcome.splits prod.splits)

lemma runQueueEntry_False_empty:
  assumes "runQueueEntry call s = Some (Normal b, s')" "b \<noteq> VBool True"
  shows "queue s' = []"
proof (cases "queue s")
  case Nil
  then show ?thesis using assms by (auto simp: runQueueEntry_def dequeueJob_def)
next
  case (Cons j q)
  then show ?thesis using assms run_job_result [of call j _ b s']
    by (auto simp: runQueueEntry_def dequeueJob_def)
qed

lemma runQueue_empty:
  "runQueue call n s = Some (Normal u, s') \<Longrightarrow> queue s' = []"
proof (induction n arbitrary: s)
  case 0
  then show ?case by simp
next
  case (Suc n)
  obtain r1 s1 where e: "runQueueEntry call s = Some (r1, s1)"
    using Suc.prems by (auto split: option.splits)
  show ?case
  proof (cases r1)
    case (Thrown e')
    then show ?thesis using Suc.prems e by simp
  next
    case (Normal b)
    show ?thesis
    proof (cases "b = VBool True")
      case True
      then show ?thesis using Suc.prems e Normal Suc.IH by simp
    next
      case False
      then have "s' = s1" using Suc.prems e Normal by simp
      then show ?thesis using runQueueEntry_False_empty e Normal False by blast
    qed
  qed
qed


lemma Some_the:
  "x \<noteq> None \<Longrightarrow> fst (the x) = a \<Longrightarrow> x = Some (a, snd (the x))"
  by (cases x) auto

section \<open>Single settlement\<close>

text \<open>
  Claim C1. Once a promise has left the pending state, its record (state, result and the
  emptied reaction lists) never changes again. A call of \<^verbatim>\<open>resolve\<close> or \<^verbatim>\<open>reject\<close> of any
  resolution pair bound to it changes neither a promise nor the queue, whatever the pair's
  latch says; and no call of any function value, no run of the queue and no client program
  changes the record, so the promise never moves between fulfilled and rejected or back to
  pending.
\<close>

theorem settled_promise_is_final:
  assumes "p < nextPromise s" and "state (promises s p) \<noteq> None"
  shows "(target (pairs s k) = p \<longrightarrow>
            promises (resolve_fn k v s) = promises s \<and> queue (resolve_fn k v s) = queue s \<and>
            promises (reject_fn k v s) = promises s \<and> queue (reject_fn k v s) = queue s) \<and>
         (\<forall>r s'. callf prog fuel f this args s = Some (r, s') \<longrightarrow> promises s' p = promises s p) \<and>
         (\<forall>r s'. Promise_runQueue prog fuel s = Some (r, s') \<longrightarrow> promises s' p = promises s p) \<and>
         (\<forall>c s'. run prog fuel body s = Some (c, s') \<longrightarrow> promises s' p = promises s p)"
proof -
  have direct: "target (pairs s k) = p \<longrightarrow>
            promises (resolve_fn k v s) = promises s \<and> queue (resolve_fn k v s) = queue s \<and>
            promises (reject_fn k v s) = promises s \<and> queue (reject_fn k v s) = queue s"
    using assms(2) by (auto simp: resolve_fn_def reject_fn_def neutralize_def Let_def)
  have kept: "later s s' \<Longrightarrow> promises s' p = promises s p" for s'
    using assms by (simp add: later_def)
  show ?thesis
    using direct kept call_laterD [OF later_callf] later_Promise_runQueue later_run by blast
qed

text \<open>
  A promise fulfilled with 5 by \<^verbatim>\<open>Promise.resolve(5)\<close>; the client then calls both
  functions of its pair and those of a fresh pair would be no different.
\<close>

definition settled_heap :: heap where
  "settled_heap = snd (resolve_static (VNum 5) empty_heap)"

definition meddle :: "stmt list" where
  "meddle = [CallFn 1 (Lit (VResolveFn 0)) (Lit VUndefined) [Lit (VNum 7)],
             CallFn 1 (Lit (VRejectFn 0)) (Lit VUndefined) [Lit (VStr ''no'')],
             CallFn 2 (Lit VThenMethod) (Lit (VPromise 0)) [],
             RunQueue]"

theorem settled_promise_is_final_witness:
  "state (promises settled_heap 0) = Some True \<and>
   target (pairs settled_heap 0) = 0 \<and>
   promises (resolve_fn 0 (VNum 7) settled_heap) = promises settled_heap \<and>
   promises (reject_fn 0 (VStr ''no'') settled_heap) = promises settled_heap \<and>
   run (\<lambda>i. []) 4 meddle settled_heap \<noteq> None \<and>
   state (promises (snd (the (run (\<lambda>i. []) 4 meddle settled_heap))) 0) = Some True \<and>
   pvalue (promises (snd (the (run (\<lambda>i. []) 4 meddle settled_heap))) 0) = VNum 5"
proof -
  have a: "0 < nextPromise settled_heap" by code_simp
  have b: "state (promises settled_heap 0) = Some True" by code_simp
  have b': "state (promises settled_heap 0) \<noteq> None" using b by simp
  have c: "target (pairs settled_heap 0) = 0" by code_simp
  have d: "pvalue (promises settled_heap 0) = VNum 5" by code_simp
  have e: "run (\<lambda>i. []) 4 meddle settled_heap \<noteq> None" by code_simp
  then obtain r s' where f: "run (\<lambda>i. []) 4 meddle settled_heap = Some (r, s')" by auto
  note fin = settled_promise_is_final [OF a b', of 0 _ "\<lambda>i. []" 4 _ _ _ meddle]
  have "promises s' 0 = promises settled_heap 0" using fin f by blast
  then show ?thesis using fin [of "VNum 7"] fin [of "VStr ''no''"] b c d e f by simp
qed


section \<open>Draining the queue\<close>

text \<open>
  Claim C6. When \<^verbatim>\<open>Promise.runQueue()\<close> returns, the queue is empty: the loop stops only
  when \<^verbatim>\<open>runQueueEntry\<close> finds no job, so it also runs the jobs that the jobs it runs put
  on the queue. Every job that was queued when the call began has run, in queue order,
  followed by the jobs queued during the call (\<open>js\<close>); none is left for a second call.
\<close>

theorem runQueue_runs_until_empty:
  assumes "Promise_runQueue prog fuel s = Some (Normal u, s')"
  shows "queue s' = [] \<and> (\<exists>js. executed s' = executed s @ queue s @ js)"
proof -
  have empty: "queue s' = []"
    using assms runQueue_empty by (auto simp: Promise_runQueue_def)
  have "prefix (executed s @ queue s) (executed s' @ queue s')"
    using later_Promise_runQueue [OF assms] by (simp add: later_def)
  then show ?thesis using empty by (auto simp: prefix_def)
qed

text \<open>
  A handler that returns a thenable: \<^verbatim>\<open>Promise.resolve(1).then(function () { return
  {then: function (res) { res(7) }} })\<close>. One job is queued when the queue run starts; the
  run executes it and the assimilation job it causes, and the derived promise is fulfilled
  with 7 when the call returns.
\<close>

definition chain_prog :: "nat \<Rightarrow> stmt list" where
  "chain_prog i =
     (if i = 0 then [Return (MkObj (Lit (VFun 1)))]
      else if i = 1 then [CallFn 9 (Arg 0) (Lit VUndefined) [Lit (VNum 7)]]
      else [])"

definition chain_heap :: heap where
  "chain_heap =
     (case run chain_prog 3
             [Static 0 SResolve (Lit (VNum 1)),
              CallFn 1 (Lit VThenMethod) (Var 0) [Lit (VFun 0)]] empty_heap of
        Some (c, s) \<Rightarrow> s
      | None \<Rightarrow> empty_heap)"

theorem runQueue_runs_until_empty_witness:
  "length (queue chain_heap) = 1 \<and>
   Promise_runQueue chain_prog 5 chain_heap \<noteq> None \<and>
   queue (snd (the (Promise_runQueue chain_prog 5 chain_heap))) = [] \<and>
   length (executed (snd (the (Promise_runQueue chain_prog 5 chain_heap)))) = 2 \<and>
   state (promises (snd (the (Promise_runQueue chain_prog 5 chain_heap))) 1) = Some True \<and>
   pvalue (promises (snd (the (Promise_runQueue chain_prog 5 chain_heap))) 1) = VNum 7"
proof -
  have a: "Promise_runQueue chain_prog 5 chain_heap \<noteq> None" by code_simp
  have b: "fst (the (Promise_runQueue chain_prog 5 chain_heap)) = Normal VUndefined"
    by code_simp
  have c: "length (queue chain_heap) = 1" by code_simp
  have d: "length (executed (snd (the (Promise_runQueue chain_prog 5 chain_heap)))) = 2 \<and>
           state (promises (snd (the (Promise_runQueue chain_prog 5 chain_heap))) 1) = Some True \<and>
           pvalue (promises (snd (the (Promise_runQueue chain_prog 5 chain_heap))) 1) = VNum 7"
    by code_simp
  show ?thesis
    using runQueue_runs_until_empty [OF Some_the [OF a b]] a c d by simp
qed

section \<open>Promise.all of the empty list\<close>

text \<open>
  Claim C7. \<^verbatim>\<open>Promise.all([])\<close> returns a promise that is already fulfilled with the empty
  array when the call returns, with nothing put on the queue: \<^verbatim>\<open>remaining\<close> starts at 1,
  the loop body never runs, and the decrement after the loop brings it to 0.
\<close>

theorem all_empty_fulfills_at_once:
  "fst (all (VArr []) s) = Normal (VPromise (nextPromise s)) \<and>
   state (promises (snd (all (VArr []) s)) (nextPromise s)) = Some True \<and>
   pvalue (promises (snd (all (VArr []) s)) (nextPromise s)) = VArr [] \<and>
   remaining (closures (snd (all (VArr []) s)) (nextClosure s)) = 0 \<and>
   queue (snd (all (VArr []) s)) = queue s"
  by (simp add: all_def new_promise_eq resolve_fn_def neutralize_def doFulfill_eq Let_def)

section \<open>The reject path\<close>

text \<open>
  Claim C10. \<^verbatim>\<open>reject\<close> of a pair whose latch is not set, bound to a pending promise,
  settles the promise to rejected with the very value it was given, whatever that value is
  (a promise, an object with a callable \<^verbatim>\<open>then\<close>): it queues the rejection reactions
  and nothing else, and creates no new resolution pair. \<^verbatim>\<open>Promise.reject(e)\<close> returns a
  new promise rejected with \<open>e\<close>.
\<close>

theorem reject_never_assimilates:
  assumes "\<not> alreadyResolved (pairs s k)"
    and "target (pairs s k) = p"
    and "state (promises s p) = None"
  shows "state (promises (reject_fn k e s) p) = Some False \<and>
         pvalue (promises (reject_fn k e s) p) = e \<and>
         queue (reject_fn k e s) = queue s @ map (reaction_job e) (rejectReactions (promises s p)) \<and>
         nextPair (reject_fn k e s) = nextPair s \<and>
         fst (reject_static e s) = VPromise (nextPromise s) \<and>
         state (promises (snd (reject_static e s)) (nextPromise s)) = Some False \<and>
         pvalue (promises (snd (reject_static e s)) (nextPromise s)) = e \<and>
         queue (snd (reject_static e s)) = queue s"
  using assms
  by (simp add: reject_fn_def neutralize_def doReject_eq Let_def reject_static_def new_promise_eq)

text \<open>Rejecting a pending promise with a thenable, and with a fulfilled promise.\<close>

definition pending_heap :: heap where
  "pending_heap = snd (snd (new_promise (snd (resolve_static (VNum 5) empty_heap))))"

theorem reject_never_assimilates_witness:
  "state (promises pending_heap 1) = None \<and>
   state (promises (reject_fn 1 (VObj (VFun 0)) pending_heap) 1) = Some False \<and>
   pvalue (promises (reject_fn 1 (VObj (VFun 0)) pending_heap) 1) = VObj (VFun 0) \<and>
   pvalue (promises (reject_fn 1 (VPromise 0) pending_heap) 1) = VPromise 0 \<and>
   queue (reject_fn 1 (VPromise 0) pending_heap) = [] \<and>
   pvalue (promises (snd (reject_static (VPromise 0) pending_heap)) 2) = VPromise 0"
proof -
  have a: "\<not> alreadyResolved (pairs pending_heap 1)" by code_simp
  have b: "target (pairs pending_heap 1) = 1" by code_simp
  have c: "state (promises pending_heap 1) = None" by code_simp
  have d: "queue pending_heap = []" "rejectReactions (promises pending_heap 1) = []"
    "nextPromise pending_heap = 2"
    by code_simp+
  show ?thesis
    using reject_never_assimilates [OF a b c, of "VObj (VFun 0)"]
      reject_never_assimilates [OF a b c, of "VPromise 0"] c d
    by simp
qed


section \<open>Self resolution\<close>

text \<open>
  Claim C3, as stated, says that calling a promise's resolve function with the promise
  itself always rejects the promise. The code checks the latch of the pair first. In
  \<^verbatim>\<open>var r; var p = new Promise(function (resolve) { r = resolve; resolve({then:
  function (res) { res(7) }}) }); r(p); Promise.runQueue()\<close> the call \<^verbatim>\<open>r(p)\<close> finds the
  latch set and returns: \<open>p\<close> is still pending after it, and the queue run fulfills \<open>p\<close>
  with 7.
\<close>

definition latched_prog :: "nat \<Rightarrow> stmt list" where
  "latched_prog i =
     (if i = 0 then [Assign 1 (Arg 0),
                     CallFn 9 (Arg 0) (Lit VUndefined) [MkObj (Lit (VFun 1))]]
      else if i = 1 then [CallFn 9 (Arg 0) (Lit VUndefined) [Lit (VNum 7)]]
      else [])"

definition latched_main :: "stmt list" where
  "latched_main = [NewPromise 0 (Lit (VFun 0)),
                   CallFn 9 (Var 1) (Lit VUndefined) [Var 0]]"

theorem self_resolution_counterexample:
  "run latched_prog 5 latched_main empty_heap \<noteq> None \<and>
   uvars (snd (the (run latched_prog 5 latched_main empty_heap))) 0 = VPromise 0 \<and>
   uvars (snd (the (run latched_prog 5 latched_main empty_heap))) 1 = VResolveFn 0 \<and>
   target (pairs (snd (the (run latched_prog 5 latched_main empty_heap))) 0) = 0 \<and>
   state (promises (snd (the (run latched_prog 5 latched_main empty_heap))) 0) = None \<and>
   run latched_prog 5 (latched_main @ [RunQueue]) empty_heap \<noteq> None \<and>
   state (promises (snd (the (run latched_prog 5 (latched_main @ [RunQueue]) empty_heap))) 0)
     = Some True \<and>
   pvalue (promises (snd (the (run latched_prog 5 (latched_main @ [RunQueue]) empty_heap))) 0)
     = VNum 7"
  by code_simp

text \<open>
  Claim C3, amended. \<^verbatim>\<open>resolve\<close> of a pair whose latch is not set, bound to a pending
  promise \<open>p\<close>, called with \<open>p\<close> itself, settles \<open>p\<close> to rejected with
  \<^verbatim>\<open>TypeError('self resolution')\<close>, at once: it sets the latch, queues the rejection
  reactions and no assimilation job. On a pair whose latch is set the call changes nothing.
\<close>

theorem self_resolution_rejects:
  assumes "target (pairs s k) = p"
  shows "(\<not> alreadyResolved (pairs s k) \<and> state (promises s p) = None \<longrightarrow>
            state (promises (resolve_fn k (VPromise p) s) p) = Some False \<and>
            pvalue (promises (resolve_fn k (VPromise p) s) p) =
              VError ''TypeError'' ''self resolution'' \<and>
            alreadyResolved (pairs (resolve_fn k (VPromise p) s) k) \<and>
            queue (resolve_fn k (VPromise p) s) =
              queue s @ map (reaction_job (VError ''TypeError'' ''self resolution''))
                (rejectReactions (promises s p))) \<and>
         (alreadyResolved (pairs s k) \<longrightarrow> resolve_fn k (VPromise p) s = s)"
  using assms
  by (simp add: resolve_fn_def neutralize_def doReject_eq Let_def)

text \<open>
  \<^verbatim>\<open>var r; var p = new Promise(function (resolve) { r = resolve }); r(p)\<close>: the promise
  is rejected when \<^verbatim>\<open>r(p)\<close> returns.
\<close>

definition stash_prog :: "nat \<Rightarrow> stmt list" where
  "stash_prog i = (if i = 0 then [Assign 1 (Arg 0)] else [])"

definition stash_heap :: heap where
  "stash_heap =
     (case run stash_prog 3 [NewPromise 0 (Lit (VFun 0))] empty_heap of
        Some (c, s) \<Rightarrow> s
      | None \<Rightarrow> empty_heap)"

theorem self_resolution_rejects_witness:
  "uvars stash_heap 0 = VPromise 0 \<and> uvars stash_heap 1 = VResolveFn 0 \<and>
   target (pairs stash_heap 0) = 0 \<and> \<not> alreadyResolved (pairs stash_heap 0) \<and>
   state (promises stash_heap 0) = None \<and>
   state (promises (resolve_fn 0 (VPromise 0) stash_heap) 0) = Some False \<and>
   pvalue (promises (resolve_fn 0 (VPromise 0) stash_heap) 0) =
     VError ''TypeError'' ''self resolution''"
proof -
  have a: "target (pairs stash_heap 0) = 0" by code_simp
  have b: "\<not> alreadyResolved (pairs stash_heap 0)" by code_simp
  have c: "state (promises stash_heap 0) = None" by code_simp
  have d: "uvars stash_heap 0 = VPromise 0" "uvars stash_heap 1 = VResolveFn 0" by code_simp+
  show ?thesis using self_resolution_rejects [OF a] a b c d by simp
qed

section \<open>Errors of the executor\<close>

text \<open>
  Claim C4, as stated, says that an error the executor raises always turns into a
  rejection of the new promise. The constructor passes the error to \<^verbatim>\<open>reject\<close> of the
  promise's pair, which does nothing once the executor has used the pair: after
  \<^verbatim>\<open>new Promise(function (resolve) { resolve(1); throw 'boom' })\<close> the promise is
  fulfilled with 1.
\<close>

definition boom_prog :: "nat \<Rightarrow> stmt list" where
  "boom_prog i =
     (if i = 0 then [CallFn 9 (Arg 0) (Lit VUndefined) [Lit (VNum 1)], Throw (Lit (VStr ''boom''))]
      else if i = 1 then [Throw (Lit (VStr ''boom''))]
      else [])"

theorem executor_error_counterexample:
  "fst (the (callf boom_prog 3 (VFun 0) VUndefined [VResolveFn 0, VRejectFn 0]
      (snd (snd (new_promise empty_heap))))) = Thrown (VStr ''boom'') \<and>
   Promise_new boom_prog 3 (VFun 0) empty_heap \<noteq> None \<and>
   fst (the (Promise_new boom_prog 3 (VFun 0) empty_heap)) = Normal (VPromise 0) \<and>
   state (promises (snd (the (Promise_new boom_prog 3 (VFun 0) empty_heap))) 0) = Some True \<and>
   pvalue (promises (snd (the (Promise_new boom_prog 3 (VFun 0) empty_heap))) 0) = VNum 1"
  by code_simp

text \<open>
  Claim C4, amended. An error the executor raises never leaves the constructor: whenever
  the executor's call returns, by a value or by an error, \<^verbatim>\<open>new Promise(executor)\<close>
  returns the new promise. The error is passed to \<^verbatim>\<open>reject\<close> of the promise's pair:
  the promise is rejected with the error at once if the pair's latch is not set and the
  promise is pending, and the call changes nothing if the latch is set, that is, if the
  executor had called \<^verbatim>\<open>resolve\<close> or \<^verbatim>\<open>reject\<close> before it raised.
\<close>

theorem executor_error_is_caught:
  assumes "is_function executor"
    and "call executor VUndefined [VResolveFn (nextPair s), VRejectFn (nextPair s)]
           (snd (snd (new_promise s))) = Some (r, s2)"
  shows "(\<exists>s'. cons call True executor s = Some (Normal (VPromise (nextPromise s)), s')) \<and>
         (\<forall>e. r = Thrown e \<longrightarrow>
            cons call True executor s =
              Some (Normal (VPromise (nextPromise s)), reject_fn (nextPair s) e s2) \<and>
            (\<not> alreadyResolved (pairs s2 (nextPair s)) \<and>
             target (pairs s2 (nextPair s)) = nextPromise s \<and>
             state (promises s2 (nextPromise s)) = None \<longrightarrow>
               state (promises (reject_fn (nextPair s) e s2) (nextPromise s)) = Some False \<and>
               pvalue (promises (reject_fn (nextPair s) e s2) (nextPromise s)) = e) \<and>
            (alreadyResolved (pairs s2 (nextPair s)) \<longrightarrow> reject_fn (nextPair s) e s2 = s2))"
proof (cases r)
  case (Normal v)
  then show ?thesis using assms by (simp add: cons_def new_promise_eq)
next
  case (Thrown e)
  have "cons call True executor s =
      Some (Normal (VPromise (nextPromise s)), reject_fn (nextPair s) e s2)"
    using assms Thrown by (simp add: cons_def new_promise_eq)
  then show ?thesis
    using Thrown by (simp add: reject_fn_def neutralize_def doReject_eq Let_def)
qed

text \<open>\<^verbatim>\<open>new Promise(function () { throw 'boom' })\<close> returns a promise rejected with
  \<^verbatim>\<open>'boom'\<close>.\<close>

theorem executor_error_is_caught_witness:
  "Promise_new boom_prog 3 (VFun 1) empty_heap \<noteq> None \<and>
   fst (the (Promise_new boom_prog 3 (VFun 1) empty_heap)) = Normal (VPromise 0) \<and>
   state (promises (snd (the (Promise_new boom_prog 3 (VFun 1) empty_heap))) 0) = Some False \<and>
   pvalue (promises (snd (the (Promise_new boom_prog 3 (VFun 1) empty_heap))) 0) = VStr ''boom''"
proof -
  define c where "c = callf boom_prog 3 (VFun 1) VUndefined
    [VResolveFn (nextPair empty_heap), VRejectFn (nextPair empty_heap)]
    (snd (snd (new_promise empty_heap)))"
  have a: "c \<noteq> None" unfolding c_def by code_simp
  have b: "fst (the c) = Thrown (VStr ''boom'')" unfolding c_def by code_simp
  have d: "\<not> alreadyResolved (pairs (snd (the c)) (nextPair empty_heap))"
    "target (pairs (snd (the c)) (nextPair empty_heap)) = nextPromise empty_heap"
    "state (promises (snd (the c)) (nextPromise empty_heap)) = None"
    "nextPromise empty_heap = 0"
    unfolding c_def by code_simp+
  have f: "is_function (VFun 1)" by simp
  note caught = executor_error_is_caught [of "VFun 1" "callf boom_prog 3" empty_heap, OF f Some_the [OF a b, unfolded c_def]]
  show ?thesis using caught d by (simp add: Promise_new_def c_def)
qed


section \<open>Order of reactions\<close>








section \<open>Assimilation of thenables\<close>



text \<open>A value that \<^verbatim>\<open>resolve\<close> fulfills a promise with directly: it has no callable
  \<^verbatim>\<open>then\<close>, and reading its \<^verbatim>\<open>then\<close> does not throw.\<close>

definition direct :: "val \<Rightarrow> bool" where
  "direct v \<longleftrightarrow>
     (case (if is_object v then get_then v else Normal (VBool False)) of
        Normal t \<Rightarrow> \<not> is_function t
      | Thrown e \<Rightarrow> False)"


lemma callf_resolve:
  "callf prog (Suc m) (VResolveFn t) this args s = Some (Normal VUndefined, resolve_fn t (arg args 0) s)"
  by (simp add: apply_fn_def)

lemma callf_reject:
  "callf prog (Suc m) (VRejectFn t) this args s = Some (Normal VUndefined, reject_fn t (arg args 0) s)"
  by (simp add: apply_fn_def)



















end
